theory Spec2Isabelle
  imports Main
begin

section \<open>JavaScript strings and numbers\<close>

text \<open>
  A JavaScript string is modelled as a \<^typ>\<open>string\<close>: a list of code units in the range
  0 to 255 (ASCII and Latin-1). Every character the programs compare against (the digits,
  \<open>x\<close>, the comma, the letters of \<open>null\<close>, \<open>A\<close> and \<open>E\<close>) lies in that range.
\<close>

definition isWhiteSpace :: "char \<Rightarrow> bool" where
  \<comment> \<open>White space and line terminators of ECMAScript below 256: TAB, LF, VT, FF, CR, SP, NBSP.\<close>
  "isWhiteSpace c \<longleftrightarrow> (of_char c :: nat) \<in> {9, 10, 11, 12, 13, 32, 160}"

definition isDigit :: "char \<Rightarrow> bool" where
  \<comment> \<open>The class \<open>\d\<close> of a regular expression without the \<open>u\<close> flag: 0 to 9.\<close>
  "isDigit c \<longleftrightarrow> 48 \<le> (of_char c :: nat) \<and> (of_char c :: nat) \<le> 57"

definition trim :: "string \<Rightarrow> string" where
  \<comment> \<open>\<open>String.prototype.trim\<close>: white space removed at both ends.\<close>
  "trim s = rev (dropWhile isWhiteSpace (rev (dropWhile isWhiteSpace s)))"

definition toLowerCase_char :: "char \<Rightarrow> char" where
  \<comment> \<open>A to Z, and the Latin-1 capitals 192 to 222 without the sign 215, move up by 32.\<close>
  "toLowerCase_char c =
     (let n = (of_char c :: nat)
      in if (65 \<le> n \<and> n \<le> 90) \<or> (192 \<le> n \<and> n \<le> 222 \<and> n \<noteq> 215)
         then char_of (n + 32) else c)"

definition toLowerCase :: "string \<Rightarrow> string" where
  "toLowerCase s = map toLowerCase_char s"

fun str_split :: "char \<Rightarrow> string \<Rightarrow> string list" where
  \<comment> \<open>\<open>String.prototype.split\<close> with a separator of one character: never an empty array.\<close>
  "str_split sep [] = [[]]"
| "str_split sep (c # cs) =
     (let r = str_split sep cs
      in if c = sep then [] # r else (c # hd r) # tl r)"

fun nth_opt :: "'a list \<Rightarrow> nat \<Rightarrow> 'a option" where
  \<comment> \<open>Reading an array at an index: \<open>None\<close> stands for \<open>undefined\<close> past the end.\<close>
  "nth_opt [] i = None"
| "nth_opt (x # xs) 0 = Some x"
| "nth_opt (x # xs) (Suc i) = nth_opt xs i"

text \<open>
  A JavaScript number is an IEEE 754 double. The programs only build numbers from strings
  of digits, so the values that occur are NaN, the doubles that are integers, and the two
  infinities. \<open>Num n\<close> is the double whose value is the integer \<open>n\<close>; negative zero is
  not told apart from zero.
\<close>

datatype number = NaN | Num int | Infinity | NegInfinity

fun bit_length :: "nat \<Rightarrow> nat" where
  \<comment> \<open>The number of binary digits of \<open>n\<close>.\<close>
  "bit_length n = (if n = 0 then 0 else Suc (bit_length (n div 2)))"

declare bit_length.simps [simp del]

definition round_to_double :: "nat \<Rightarrow> nat" where
  \<comment> \<open>Rounding to 53 significant bits, to the nearest value and to the even one on a tie.\<close>
  "round_to_double n =
     (let e = bit_length n - 53;
          q = n div 2 ^ e;
          r = n mod 2 ^ e
      in if 2 * r > 2 ^ e \<or> (2 * r = 2 ^ e \<and> odd q) then (q + 1) * 2 ^ e else q * 2 ^ e)"

definition number_value :: "bool \<Rightarrow> nat \<Rightarrow> number" where
  \<comment> \<open>The Number value of a sign and a magnitude: exact below \<open>2 ^ 53\<close>, rounded beyond,
      infinite once the rounded magnitude reaches \<open>2 ^ 1024\<close>. (Node rounds the whole
      digit string correctly; the standard allows an approximation past 20 digits.)\<close>
  "number_value neg n =
     (if n < 2 ^ 53 then Num (if neg then - int n else int n)
      else let v = round_to_double n
           in if 2 ^ 1024 \<le> v then (if neg then NegInfinity else Infinity)
              else Num (if neg then - int v else int v))"

definition digit_val :: "char \<Rightarrow> nat" where
  "digit_val c = of_char c - 48"

definition digits_value :: "string \<Rightarrow> nat" where
  "digits_value ds = foldl (\<lambda>a c. 10 * a + digit_val c) 0 ds"

definition parseInt_str :: "string \<Rightarrow> number" where
  \<comment> \<open>\<open>parseInt(s, 10)\<close>: leading white space is skipped, one sign is read, then the longest
      run of digits; what follows the digits is ignored, and no digit at all gives NaN.\<close>
  "parseInt_str s =
     (let t = dropWhile isWhiteSpace s;
          neg = (t \<noteq> [] \<and> hd t = CHR ''-'');
          u = (if t \<noteq> [] \<and> (hd t = CHR ''-'' \<or> hd t = CHR ''+'') then tl t else t);
          ds = takeWhile isDigit u
      in if ds = [] then NaN else number_value neg (digits_value ds))"

definition parseInt :: "string option \<Rightarrow> number" where
  \<comment> \<open>The argument is converted to a string first: \<open>undefined\<close> becomes the text "undefined".\<close>
  "parseInt v = parseInt_str (case v of None \<Rightarrow> ''undefined'' | Some s \<Rightarrow> s)"

section \<open>The validator and the parser\<close>

definition regex_test :: "string \<Rightarrow> bool" where
  \<comment> \<open>\<open>/^\d+x\d+$/.test(s)\<close>: one digit or more, the letter x, one digit or more, nothing else.\<close>
  "regex_test s =
     (let w = takeWhile isDigit s; r = dropWhile isDigit s
      in w \<noteq> [] \<and> r \<noteq> [] \<and> hd r = CHR ''x'' \<and> tl r \<noteq> [] \<and> list_all isDigit (tl r))"

definition isValidFormat :: "string \<Rightarrow> bool" where
  "isValidFormat input \<longleftrightarrow> input = '''' \<or> input = ''null'' \<or> regex_test input"

type_synonym size_pair = "number \<times> number"

definition parse_size :: "string \<Rightarrow> size_pair" where
  \<comment> \<open>The callback of \<open>map\<close> in parseSizes: \<open>[width, height] = size.split("x")\<close>.\<close>
  "parse_size sz =
     (let parts = str_split CHR ''x'' sz;
          width = nth_opt parts 0;
          height = nth_opt parts 1
      in (parseInt width, parseInt height))"

definition parseSizes :: "string \<Rightarrow> size_pair list option" where
  \<comment> \<open>\<open>None\<close> is the value \<open>null\<close>.\<close>
  "parseSizes inputSizes =
     (if toLowerCase inputSizes = ''null'' then None
      else if inputSizes = '''' then Some []
      else Some (map parse_size (str_split CHR '','' inputSizes)))"

section \<open>The console and the input stream\<close>

text \<open>
  What a run writes and does is a list of events, in order. The lines the user types are a
  list of strings; a prompt that finds the list empty is never answered, and the run does
  not get past it: the result is \<open>None\<close>.
\<close>

datatype 'j event =
    Log string  \<comment> \<open>\<open>console.log\<close> of a text\<close>
  | LogJson 'j  \<comment> \<open>\<open>console.log(JSON.stringify(value, null, 2))\<close>\<close>
  | LogError string  \<comment> \<open>\<open>console.error\<close>\<close>
  | Question string  \<comment> \<open>\<open>rl.question\<close> writes its query\<close>
  | RlClose  \<comment> \<open>\<open>rl.close()\<close>\<close>
  | Spawn string "string list" "string list"  \<comment> \<open>command, arguments, stdio\<close>

definition format_incorrect :: "string \<Rightarrow> bool" where
  \<comment> \<open>The condition of the \<open>if\<close> and of the \<open>while\<close> in getValidInput (the same expression).\<close>
  "format_incorrect input \<longleftrightarrow>
     input \<noteq> '''' \<and> toLowerCase input \<noteq> ''null'' \<and>
     list_ex (\<lambda>sz. \<not> isValidFormat (trim sz)) (str_split CHR '','' input)"

fun getValidInput_loop ::
  "string \<Rightarrow> string \<Rightarrow> string list \<Rightarrow> (string \<times> string list \<times> 'j event list) option" where
  \<comment> \<open>The do-while loop, for a diagnostic message: the accepted line, the lines left, the events.\<close>
  "getValidInput_loop msg promptMessage [] = None"
| "getValidInput_loop msg promptMessage (input # rest) =
     (if format_incorrect input then
        (case getValidInput_loop msg promptMessage rest of
           None \<Rightarrow> None
         | Some (r, rest', evs) \<Rightarrow> Some (r, rest', Question promptMessage # Log msg # evs))
      else Some (input, rest, [Question promptMessage]))"

definition format_message :: string where
  "format_message = ''Format is not correct. Please enter sizes in WidthxHeight format (e.g., 150x50), or type 'null' to use a null value.''"

definition getValidInput ::
  "string \<Rightarrow> string list \<Rightarrow> (string \<times> string list \<times> 'j event list) option" where
  \<comment> \<open>getValidInput of notAutoInsert.js.\<close>
  "getValidInput = getValidInput_loop format_message"

section \<open>The list of breakpoints (notAutoInsert.js)\<close>

record size_map =
  sizeMap :: "(int list \<times> size_pair list option) list"

definition createSizeMap ::
  "size_pair list option \<Rightarrow> size_pair list option \<Rightarrow> size_pair list option \<Rightarrow> size_map" where
  "createSizeMap desktopSizes tabletSizes mobileSizes =
     (let s0 = [];
          s1 = (case desktopSizes of
                  None \<Rightarrow> s0 @ [([992], None)]
                | Some ds \<Rightarrow> if length ds > 0 then s0 @ [([992], Some ds)] else s0);
          s2 = (case tabletSizes of
                  None \<Rightarrow> s1 @ [([768], None)]
                | Some ts \<Rightarrow> if length ts > 0 then s1 @ [([768], Some ts)] else s1);
          s3 = (case mobileSizes of
                  None \<Rightarrow> s2 @ [([0], None)]
                | Some ms \<Rightarrow> if length ms > 0 then s2 @ [([0], Some ms)] else s2)
      in \<lparr>sizeMap = s3\<rparr>)"

definition null_or_empty :: "size_pair list option \<Rightarrow> bool" where
  \<comment> \<open>\<open>sizes === null || sizes.length === 0\<close>\<close>
  "null_or_empty sz = (case sz of None \<Rightarrow> True | Some xs \<Rightarrow> length xs = 0)"

definition instruction :: string where
  "instruction = ''Enter sizes in comma separated WidthxHeight format (without spaces). Leave empty to skip, or type 'null' to set a null value.''"

definition notAutoInsert_main :: "string list \<Rightarrow> size_map event list option" where
  \<comment> \<open>The async function generateSizeMap of notAutoInsert.js, run on the lines typed.\<close>
  "notAutoInsert_main lines =
     (case getValidInput ''Enter Desktop sizes: '' lines of
        None \<Rightarrow> None
      | Some (desktopInput, l1, e1) \<Rightarrow>
     (case getValidInput ''Enter Tablet sizes: '' l1 of
        None \<Rightarrow> None
      | Some (tabletInput, l2, e2) \<Rightarrow>
     (case getValidInput ''Enter Mobile sizes: '' l2 of
        None \<Rightarrow> None
      | Some (mobileInput, l3, e3) \<Rightarrow>
          (let desktopSizes = parseSizes desktopInput;
               tabletSizes = parseSizes tabletInput;
               mobileSizes = parseSizes mobileInput
           in Some (Log instruction # e1 @ e2 @ e3 @ [RlClose] @
                (if null_or_empty desktopSizes \<and> null_or_empty tabletSizes \<and>
                    null_or_empty mobileSizes
                 then [Log ''No size config needed'']
                 else [LogJson (createSizeMap desktopSizes tabletSizes mobileSizes)]))))))"

section \<open>The list of breakpoints (sizeMapRef.js)\<close>

definition createSizeMap_ref ::
  "size_pair list option \<Rightarrow> size_pair list option \<Rightarrow> size_pair list option \<Rightarrow> size_map" where
  \<comment> \<open>createSizeMap of sizeMapRef.js: \<open>x !== null ? x : null\<close> for each of the three.\<close>
  "createSizeMap_ref desktopSizes tabletSizes mobileSizes =
     (let s0 = [];
          s1 = s0 @ [([992], if desktopSizes \<noteq> None then desktopSizes else None)];
          s2 = s1 @ [([768], if tabletSizes \<noteq> None then tabletSizes else None)];
          s3 = s2 @ [([0], if mobileSizes \<noteq> None then mobileSizes else None)]
      in \<lparr>sizeMap = s3\<rparr>)"

section \<open>The first size list and its extensions (the variant with device labels)\<close>

record env_ext =
  sizes :: "size_pair list"
  envs :: "string option"

text \<open>
  The result object starts as \<open>{}\<close>. Its keys \<open>sizes\<close> and \<open>envs\<close> are written
  by one branch, together, so the model holds them in one optional field \<open>primary\<close>; the key
  \<open>envExt\<close> is present only when the list of extensions is not empty. A label read past
  the end of \<open>devices\<close> is \<open>undefined\<close>, here \<open>None\<close>.
\<close>

record result =
  primary :: "env_ext option"
  envExt :: "env_ext list option"

definition visit ::
  "string list \<Rightarrow> result \<times> env_ext list \<Rightarrow> size_pair list option \<times> nat \<Rightarrow> result \<times> env_ext list" where
  \<comment> \<open>The callback of \<open>forEach\<close>, on the variables \<open>result\<close> and \<open>envExt\<close> it closes over.\<close>
  "visit devices st si =
     (case st of (res, ext) \<Rightarrow>
      case si of (sz, index) \<Rightarrow>
        (let e = nth_opt devices index
         in case sz of
              None \<Rightarrow> (res, ext)
            | Some xs \<Rightarrow>
                if length xs = 0 then (res, ext)
                else if primary res = None
                     then (res\<lparr>primary := Some \<lparr>sizes = xs, envs = e\<rparr>\<rparr>, ext)
                     else (res, ext @ [\<lparr>sizes = xs, envs = e\<rparr>])))"

definition generateSizeMap :: "size_pair list option list \<Rightarrow> string list \<Rightarrow> result" where
  "generateSizeMap inputs devices =
     (case foldl (visit devices) (\<lparr>primary = None, envExt = None\<rparr>, [])
             (zip inputs [0 ..< length inputs]) of
        (res, ext) \<Rightarrow> if length ext > 0 then res\<lparr>envExt := Some ext\<rparr> else res)"

definition invalid_message :: string where
  "invalid_message = ''Invalid format. Enter sizes in WidthxHeight format (e.g., 150x50), or type 'null' to set a null value.''"

definition instruction_labels :: string where
  "instruction_labels = ''Enter sizes in WidthxHeight format (comma-separated, e.g., 150x50). Leave empty to skip or type 'null' to set a null value.''"

definition processInputs :: "string list \<Rightarrow> result event list option" where
  "processInputs lines =
     (case getValidInput_loop invalid_message ''Enter Desktop sizes: '' lines of
        None \<Rightarrow> None
      | Some (desktopInput, l1, e1) \<Rightarrow>
     (case getValidInput_loop invalid_message ''Enter Tablet sizes: '' l1 of
        None \<Rightarrow> None
      | Some (tabletInput, l2, e2) \<Rightarrow>
     (case getValidInput_loop invalid_message ''Enter Mobile sizes: '' l2 of
        None \<Rightarrow> None
      | Some (mobileInput, l3, e3) \<Rightarrow>
          (let inputs = [parseSizes desktopInput, parseSizes tabletInput, parseSizes mobileInput];
               devices = [''d'', ''t'', ''m''];
               sizeMap = generateSizeMap inputs devices
           in Some (Log instruction_labels # e1 @ e2 @ e3 @ [RlClose, LogJson sizeMap])))))"

section \<open>The launcher (main.js)\<close>

definition toUpperCase_char :: "char \<Rightarrow> string" where
  \<comment> \<open>a to z, and the Latin-1 small letters 224 to 254 without the sign 247, move down by 32;
      the sharp s (223) becomes SS. The capitals of 181 and 255 have no code unit below 256:
      the model keeps the two characters, which differ from A and E like their capitals.\<close>
  "toUpperCase_char c =
     (let n = (of_char c :: nat)
      in if (97 \<le> n \<and> n \<le> 122) \<or> (224 \<le> n \<and> n \<le> 254 \<and> n \<noteq> 247)
         then [char_of (n - 32)]
         else if n = 223 then ''SS'' else [c])"

definition toUpperCase :: "string \<Rightarrow> string" where
  "toUpperCase s = concat (map toUpperCase_char s)"

function show_nat :: "nat \<Rightarrow> string" where
  "show_nat n = (if n < 10 then [char_of (48 + n)]
                 else show_nat (n div 10) @ [char_of (48 + n mod 10)])"
  by pat_completeness auto
termination
  by (relation "measure id") auto

definition show_code :: "int option \<Rightarrow> string" where
  \<comment> \<open>The exit code inside the template literal: a number in decimal, or the text null.\<close>
  "show_code code =
     (case code of
        None \<Rightarrow> ''null''
      | Some c \<Rightarrow> if c < 0 then CHR ''-'' # show_nat (nat (- c)) else show_nat (nat c))"

datatype spawn_result =
    StartFailed string  \<comment> \<open>the event \<open>error\<close>, with the message of the error\<close>
  | Closed "int option"  \<comment> \<open>the event \<open>close\<close>, with the exit code (null after a signal)\<close>

definition executeScript :: "(string \<Rightarrow> spawn_result) \<Rightarrow> string \<Rightarrow> unit event list \<times> int" where
  \<comment> \<open>The events, and the exit code of the launcher. \<open>process.exit(null)\<close> exits with 0.\<close>
  "executeScript os scriptName =
     (case os scriptName of
        Closed code \<Rightarrow>
          ([RlClose, Spawn ''node'' [scriptName] [''inherit'', ''inherit'', ''inherit''],
            Log (''Script '' @ scriptName @ '' exited with code '' @ show_code code)],
           (case code of None \<Rightarrow> 0 | Some c \<Rightarrow> c))
      | StartFailed message \<Rightarrow>
          ([RlClose, Spawn ''node'' [scriptName] [''inherit'', ''inherit'', ''inherit''],
            LogError (''Failed to start script: '' @ message)],
           1))"

definition menu :: string where
  "menu = ''Enter \"A\" for Autoinsert, or \"E\" for everything else:''"

fun startScript :: "(string \<Rightarrow> spawn_result) \<Rightarrow> string list \<Rightarrow> (unit event list \<times> int) option" where
  "startScript os [] = None"
| "startScript os (input # rest) =
     (let choice = toUpperCase (trim input)
      in if choice = ''A'' then
           (case executeScript os ''autoInsert.js'' of
              (evs, code) \<Rightarrow>
                Some (Log menu # Question ''> '' # Log ''Starting autoInsert.js...'' # evs, code))
         else if choice = ''E'' then
           (case executeScript os ''notAutoInsert.js'' of
              (evs, code) \<Rightarrow>
                Some (Log menu # Question ''> '' # Log ''Starting notAutoInsert.js...'' # evs, code))
         else
           (case startScript os rest of
              None \<Rightarrow> None
            | Some (evs, code) \<Rightarrow>
                Some (Log menu # Question ''> '' #
                      Log ''Invalid choice. Please enter \"A\" or \"E\".'' # evs, code)))"

section \<open>Notions of the specification\<close>

definition same_letter :: "char \<Rightarrow> char \<Rightarrow> bool" where
  \<comment> \<open>A character is the small letter \<open>l\<close> or its capital, 32 code units below.\<close>
  "same_letter c l \<longleftrightarrow> c = l \<or> (of_char c :: nat) + 32 = of_char l"

definition null_ci :: "string \<Rightarrow> bool" where
  \<comment> \<open>The literal null, in any mix of capitals and small letters.\<close>
  "null_ci s = list_all2 same_letter s ''null''"

definition spec_acceptable :: "string \<Rightarrow> bool" where
  \<comment> \<open>The accepted lines as the specification lists them: the empty line, null in any case,
      or tokens between commas that each match the pattern once trimmed.\<close>
  "spec_acceptable line \<longleftrightarrow>
     line = '''' \<or> null_ci line \<or>
     list_all (\<lambda>tok. regex_test (trim tok)) (str_split CHR '','' line)"

definition decimal :: "string \<Rightarrow> nat" where
  \<comment> \<open>The base-10 value of a string of digits, by the weight of each position.\<close>
  "decimal ds = (\<Sum>i < length ds. digit_val (ds ! i) * 10 ^ (length ds - 1 - i))"

definition digit_string :: "string \<Rightarrow> bool" where
  "digit_string ds \<longleftrightarrow> ds \<noteq> [] \<and> list_all isDigit ds"

definition non_skipped :: "size_pair list option list \<Rightarrow> string list \<Rightarrow> env_ext list" where
  \<comment> \<open>The categories that are neither null nor empty, in order, each with its label.\<close>
  "non_skipped inputs devices =
     concat (map (\<lambda>(sz, index). case sz of None \<Rightarrow> []
                   | Some xs \<Rightarrow> if xs = [] then [] else [\<lparr>sizes = xs, envs = nth_opt devices index\<rparr>])
              (zip inputs [0 ..< length inputs]))"

definition visit_items :: "string list \<Rightarrow> (size_pair list option \<times> nat) list \<Rightarrow> env_ext list" where
  "visit_items devices items =
     concat (map (\<lambda>(sz, index). case sz of None \<Rightarrow> []
                   | Some xs \<Rightarrow> if xs = [] then [] else [\<lparr>sizes = xs, envs = nth_opt devices index\<rparr>]) items)"

fun json_output :: "'j event list \<Rightarrow> 'j list" where
  \<comment> \<open>The values a run prints as JSON, in order.\<close>
  "json_output [] = []"
| "json_output (LogJson j # evs) = j # json_output evs"
| "json_output (e # evs) = json_output evs"

definition accepted :: "string list \<Rightarrow> string list" where
  \<comment> \<open>The lines, among those typed, that the loop of getValidInput lets through.\<close>
  "accepted lines = filter (\<lambda>l. \<not> format_incorrect l) lines"

definition reprompts :: "string \<Rightarrow> string \<Rightarrow> nat \<Rightarrow> 'j event list" where
  \<comment> \<open>A number of rejected lines: each one has its prompt, then the diagnostic message.\<close>
  "reprompts msg promptMessage n = concat (replicate n [Question promptMessage, Log msg])"

definition script_of :: "string \<Rightarrow> string option" where
  \<comment> \<open>The script that a line typed at the launcher selects: A or E once trimmed, in either case.\<close>
  "script_of line =
     (if trim line = ''A'' \<or> trim line = ''a'' then Some ''autoInsert.js''
      else if trim line = ''E'' \<or> trim line = ''e'' then Some ''notAutoInsert.js''
      else None)"

definition invalid_choice :: "unit event list" where
  \<comment> \<open>What the launcher writes for a line that selects nothing.\<close>
  "invalid_choice =
     [Log menu, Question ''> '', Log ''Invalid choice. Please enter \"A\" or \"E\".'']"

section \<open>Auxiliary facts\<close>

subsection \<open>Characters and case\<close>

lemma char_code_eq: "c = d \<longleftrightarrow> (of_char c :: nat) = of_char d"
  by simp

lemma char_of_code_eq: "n < 256 \<Longrightarrow> char_of (n::nat) = d \<longleftrightarrow> n = of_char d"
  by (auto simp: char_of_eq_iff take_bit_eq_mod)

lemma toLowerCase_char_n: "toLowerCase_char c = CHR ''n'' \<longleftrightarrow> same_letter c CHR ''n''"
proof -
  have lt: "(of_char c :: nat) < 256" by simp
  show ?thesis
    unfolding toLowerCase_char_def Let_def same_letter_def
    using lt by (auto simp: char_of_code_eq char_code_eq [of c])
qed

lemma toLowerCase_char_u: "toLowerCase_char c = CHR ''u'' \<longleftrightarrow> same_letter c CHR ''u''"
proof -
  have lt: "(of_char c :: nat) < 256" by simp
  show ?thesis
    unfolding toLowerCase_char_def Let_def same_letter_def
    using lt by (auto simp: char_of_code_eq char_code_eq [of c])
qed

lemma toLowerCase_char_l: "toLowerCase_char c = CHR ''l'' \<longleftrightarrow> same_letter c CHR ''l''"
proof -
  have lt: "(of_char c :: nat) < 256" by simp
  show ?thesis
    unfolding toLowerCase_char_def Let_def same_letter_def
    using lt by (auto simp: char_of_code_eq char_code_eq [of c])
qed

lemma map_eq_list_all2: "map f xs = ys \<longleftrightarrow> list_all2 (\<lambda>x y. f x = y) xs ys"
  by (simp add: list_all2_eq [of "map f xs" ys] list_all2_map1)

lemma toLowerCase_null: "toLowerCase s = ''null'' \<longleftrightarrow> null_ci s"
  unfolding toLowerCase_def null_ci_def map_eq_list_all2
  by (simp add: list_all2_Cons2 toLowerCase_char_n toLowerCase_char_u toLowerCase_char_l)

lemma same_letter_n: "same_letter c CHR ''n'' \<longleftrightarrow> c = CHR ''n'' \<or> c = CHR ''N''"
  by (auto simp: same_letter_def char_code_eq [of c])

lemma same_letter_u: "same_letter c CHR ''u'' \<longleftrightarrow> c = CHR ''u'' \<or> c = CHR ''U''"
  by (auto simp: same_letter_def char_code_eq [of c])

lemma same_letter_l: "same_letter c CHR ''l'' \<longleftrightarrow> c = CHR ''l'' \<or> c = CHR ''L''"
  by (auto simp: same_letter_def char_code_eq [of c])

lemma null_ci_spellings:
  "null_ci s \<longleftrightarrow> (\<exists>a b c d. s = [a, b, c, d] \<and> same_letter a CHR ''n'' \<and>
      same_letter b CHR ''u'' \<and> same_letter c CHR ''l'' \<and> same_letter d CHR ''l'')"
  unfolding null_ci_def
  by (simp add: list_all2_Cons2) blast

lemma isDigit_not_space: "isDigit c \<Longrightarrow> \<not> isWhiteSpace c"
  by (auto simp: isDigit_def isWhiteSpace_def)

lemma isDigit_not_x: "isDigit c \<Longrightarrow> c \<noteq> CHR ''x''"
  by (auto simp: isDigit_def)

lemma isDigit_not_sign: "isDigit c \<Longrightarrow> c \<noteq> CHR ''-'' \<and> c \<noteq> CHR ''+''"
  by (auto simp: isDigit_def)

lemma space_not_x: "isWhiteSpace c \<Longrightarrow> c \<noteq> CHR ''x''"
  by (auto simp: isWhiteSpace_def)

lemma toUpperCase_char_A: "toUpperCase_char c = ''A'' \<longleftrightarrow> c = CHR ''A'' \<or> c = CHR ''a''"
proof -
  have lt: "(of_char c :: nat) < 256" by simp
  show ?thesis
    unfolding toUpperCase_char_def Let_def
    using lt by (auto simp: char_of_code_eq char_code_eq [of c])
qed

lemma toUpperCase_char_E: "toUpperCase_char c = ''E'' \<longleftrightarrow> c = CHR ''E'' \<or> c = CHR ''e''"
proof -
  have lt: "(of_char c :: nat) < 256" by simp
  show ?thesis
    unfolding toUpperCase_char_def Let_def
    using lt by (auto simp: char_of_code_eq char_code_eq [of c])
qed

lemma toUpperCase_char_nonempty: "toUpperCase_char c \<noteq> []"
  by (simp add: toUpperCase_char_def Let_def)

lemma toUpperCase_single:
  "toUpperCase s = [x] \<longleftrightarrow> (\<exists>c. s = [c] \<and> toUpperCase_char c = [x])"
proof (cases s)
  case Nil
  then show ?thesis by (simp add: toUpperCase_def)
next
  case (Cons c cs)
  show ?thesis
  proof (cases cs)
    case Nil
    with Cons show ?thesis by (simp add: toUpperCase_def)
  next
    case (Cons c' cs')
    have "length (toUpperCase s) \<ge> 2"
      using toUpperCase_char_nonempty [of c] toUpperCase_char_nonempty [of c']
      by (cases "toUpperCase_char c"; cases "toUpperCase_char c'")
         (simp_all add: toUpperCase_def \<open>s = c # cs\<close> Cons)
    then have "toUpperCase s \<noteq> [x]" by auto
    then show ?thesis by (simp add: \<open>s = c # cs\<close> Cons)
  qed
qed

lemma toUpperCase_A: "toUpperCase s = ''A'' \<longleftrightarrow> s = ''A'' \<or> s = ''a''"
  by (auto simp: toUpperCase_single toUpperCase_char_A)

lemma toUpperCase_E: "toUpperCase s = ''E'' \<longleftrightarrow> s = ''E'' \<or> s = ''e''"
  by (auto simp: toUpperCase_single toUpperCase_char_E)

subsection \<open>The pattern, split and trim\<close>

lemma regex_test_iff:
  "regex_test s \<longleftrightarrow>
     (\<exists>w h. s = w @ ''x'' @ h \<and> w \<noteq> [] \<and> h \<noteq> [] \<and> list_all isDigit w \<and> list_all isDigit h)"
proof
  assume r: "regex_test s"
  let ?w = "takeWhile isDigit s" and ?r = "dropWhile isDigit s"
  from r have "?w \<noteq> []" "?r \<noteq> []" "hd ?r = CHR ''x''" "tl ?r \<noteq> []" "list_all isDigit (tl ?r)"
    by (simp_all add: regex_test_def Let_def)
  moreover have "s = ?w @ ?r" by simp
  moreover from \<open>?r \<noteq> []\<close> \<open>hd ?r = CHR ''x''\<close> have "?r = ''x'' @ tl ?r"
    by (cases ?r) simp_all
  moreover have "list_all isDigit ?w"
    by (simp add: list_all_iff) (meson set_takeWhileD)
  ultimately show "\<exists>w h. s = w @ ''x'' @ h \<and> w \<noteq> [] \<and> h \<noteq> [] \<and> list_all isDigit w \<and> list_all isDigit h"
    by metis
next
  assume "\<exists>w h. s = w @ ''x'' @ h \<and> w \<noteq> [] \<and> h \<noteq> [] \<and> list_all isDigit w \<and> list_all isDigit h"
  then obtain w h where s: "s = w @ ''x'' @ h" and ne: "w \<noteq> []" "h \<noteq> []"
    and dg: "list_all isDigit w" "list_all isDigit h" by blast
  have nx: "\<not> isDigit CHR ''x''" using isDigit_not_x by blast
  have tw: "takeWhile isDigit s = w"
    unfolding s using dg(1) nx by (simp add: list_all_iff takeWhile_append2)
  have dw: "dropWhile isDigit s = ''x'' @ h"
    unfolding s using dg(1) nx by (simp add: list_all_iff dropWhile_append2)
  show "regex_test s"
    by (simp add: regex_test_def Let_def tw dw ne dg)
qed

lemma str_split_nosep: "sep \<notin> set u \<Longrightarrow> str_split sep u = [u]"
  by (induction u) (auto simp: Let_def)

lemma str_split_append: "sep \<notin> set u \<Longrightarrow> str_split sep (u @ sep # v) = u # str_split sep v"
  by (induction u) (auto simp: Let_def)

lemma str_split_nonempty: "str_split sep s \<noteq> []"
  by (induction s) (simp_all add: Let_def)

lemma trim_decomp:
  "\<exists>a b. tok = a @ trim tok @ b \<and> list_all isWhiteSpace a \<and> list_all isWhiteSpace b"
proof -
  let ?a = "takeWhile isWhiteSpace tok" and ?r = "dropWhile isWhiteSpace tok"
  let ?b = "rev (takeWhile isWhiteSpace (rev ?r))"
  have "?r = rev (dropWhile isWhiteSpace (rev ?r)) @ ?b"
    by (metis rev_append rev_rev_ident takeWhile_dropWhile_id)
  then have "?r = trim tok @ ?b" by (simp add: trim_def)
  moreover have "tok = ?a @ ?r" by simp
  ultimately have "tok = ?a @ trim tok @ ?b" by simp
  moreover have "list_all isWhiteSpace ?a"
    by (simp add: list_all_iff) (meson set_takeWhileD)
  moreover have "list_all isWhiteSpace ?b"
    by (simp add: list_all_iff) (meson set_takeWhileD)
  ultimately show ?thesis by blast
qed

subsection \<open>Parsing numbers and sizes\<close>

lemma number_value_exact:
  "n < 2 ^ 53 \<Longrightarrow> number_value neg n = Num (if neg then - int n else int n)"
  by (simp add: number_value_def)

lemma number_value_not_NaN: "number_value neg n \<noteq> NaN"
  by (simp add: number_value_def Let_def)

lemma bit_length_le: "n < 2 ^ k \<Longrightarrow> bit_length n \<le> k"
proof (induction k arbitrary: n)
  case 0
  then show ?case by (simp add: bit_length.simps)
next
  case (Suc k)
  then have "n div 2 < 2 ^ k" by simp
  then have "bit_length (n div 2) \<le> k" by (rule Suc.IH)
  then show ?case by (subst bit_length.simps) simp
qed

lemma bit_length_ge: "2 ^ k \<le> n \<Longrightarrow> k < bit_length n"
proof (induction k arbitrary: n)
  case 0
  then show ?case by (subst bit_length.simps) simp
next
  case (Suc k)
  then have "2 ^ k \<le> n div 2" by simp
  then have "k < bit_length (n div 2)" by (rule Suc.IH)
  moreover have "n \<noteq> 0"
  proof
    assume "n = 0"
    with Suc.prems show False by simp
  qed
  ultimately show ?case by (subst bit_length.simps) simp
qed

lemma bit_length_eq: "2 ^ k \<le> n \<Longrightarrow> n < 2 ^ Suc k \<Longrightarrow> bit_length n = Suc k"
  using bit_length_le [of n "Suc k"] bit_length_ge [of k n] by simp

lemma number_value_tie_to_even:
  "number_value False 9007199254740993 = Num 9007199254740992"
proof -
  have "bit_length 9007199254740993 = Suc 53"
    by (rule bit_length_eq) simp_all
  then show ?thesis
    by (simp add: number_value_def round_to_double_def)
qed

lemma digits_value_snoc: "digits_value (ds @ [c]) = 10 * digits_value ds + digit_val c"
  by (simp add: digits_value_def)

lemma decimal_snoc: "decimal (ds @ [c]) = 10 * decimal ds + digit_val c"
proof -
  have "(\<Sum>i < length ds. digit_val ((ds @ [c]) ! i) * 10 ^ (length ds - i)) =
        (\<Sum>i < length ds. 10 * (digit_val (ds ! i) * 10 ^ (length ds - 1 - i)))"
  proof (rule sum.cong)
    fix i assume "i \<in> {..< length ds}"
    then have i: "i < length ds" by simp
    then have "length ds - i = Suc (length ds - 1 - i)" by simp
    then show "digit_val ((ds @ [c]) ! i) * 10 ^ (length ds - i) =
               10 * (digit_val (ds ! i) * 10 ^ (length ds - 1 - i))"
      using i by (simp add: nth_append)
  qed simp
  then show ?thesis
    by (simp add: decimal_def sum_distrib_left)
qed

lemma digits_value_decimal: "digits_value ds = decimal ds"
proof (induction ds rule: rev_induct)
  case Nil
  show ?case by (simp add: digits_value_def decimal_def)
next
  case (snoc c ds)
  then show ?case by (simp only: digits_value_snoc decimal_snoc)
qed

lemma parseInt_str_padded:
  assumes a: "list_all isWhiteSpace a" and ds: "ds \<noteq> []" "list_all isDigit ds"
    and b: "list_all isWhiteSpace b"
  shows "parseInt_str (a @ ds @ b) = number_value False (decimal ds)"
proof -
  from ds obtain d ds' where dd: "ds = d # ds'" and d: "isDigit d" by (cases ds) auto
  have nb: "\<And>x. x \<in> set b \<Longrightarrow> \<not> isDigit x"
    using b isDigit_not_space by (auto simp: list_all_iff)
  have dw: "dropWhile isWhiteSpace (a @ ds @ b) = ds @ b"
    using a d isDigit_not_space [OF d] by (simp add: list_all_iff dropWhile_append2 dd)
  have tw: "takeWhile isDigit (ds @ b) = ds"
  proof -
    have "takeWhile isDigit (ds @ b) = ds @ takeWhile isDigit b"
      using ds(2) by (simp add: list_all_iff takeWhile_append2)
    moreover have "takeWhile isDigit b = []"
      using nb by (cases b) simp_all
    ultimately show ?thesis by simp
  qed
  have sg: "hd (ds @ b) \<noteq> CHR ''-''" "hd (ds @ b) \<noteq> CHR ''+''"
    using isDigit_not_sign [OF d] by (simp_all add: dd)
  show ?thesis
    unfolding parseInt_str_def Let_def dw
    using sg ds(1) by (simp add: tw digits_value_decimal)
qed

lemma parse_size_padded:
  assumes a: "list_all isWhiteSpace a" and b: "list_all isWhiteSpace b"
    and w: "w \<noteq> []" "list_all isDigit w" and h: "h \<noteq> []" "list_all isDigit h"
  shows "parse_size (a @ w @ ''x'' @ h @ b) =
           (number_value False (decimal w), number_value False (decimal h))"
proof -
  have x1: "CHR ''x'' \<notin> set (a @ w)"
    using a w(2) space_not_x isDigit_not_x by (auto simp: list_all_iff)
  have x2: "CHR ''x'' \<notin> set (h @ b)"
    using b h(2) space_not_x isDigit_not_x by (auto simp: list_all_iff)
  have sp: "str_split CHR ''x'' ((a @ w) @ CHR ''x'' # (h @ b)) = [a @ w, h @ b]"
    by (simp only: str_split_append [OF x1] str_split_nosep [OF x2])
  have p1: "parseInt_str (a @ w) = number_value False (decimal w)"
    using parseInt_str_padded [OF a w, of "[]"] by simp
  have p2: "parseInt_str (h @ b) = number_value False (decimal h)"
    using parseInt_str_padded [OF _ h b, of "[]"] by simp
  have "a @ w @ ''x'' @ h @ b = (a @ w) @ CHR ''x'' # (h @ b)" by simp
  then show ?thesis
    unfolding parse_size_def Let_def
    by (simp only: sp) (simp add: parseInt_def p1 p2)
qed

lemma parse_size_trimmed:
  assumes "regex_test (trim tok)"
  shows "\<exists>w h. trim tok = w @ ''x'' @ h \<and> w \<noteq> [] \<and> h \<noteq> [] \<and> list_all isDigit w \<and>
           list_all isDigit h \<and>
           parse_size tok = (number_value False (decimal w), number_value False (decimal h))"
proof -
  from assms obtain w h where t: "trim tok = w @ ''x'' @ h" and w: "w \<noteq> []" "list_all isDigit w"
    and h: "h \<noteq> []" "list_all isDigit h"
    unfolding regex_test_iff by blast
  obtain a b where tok: "tok = a @ trim tok @ b" and a: "list_all isWhiteSpace a"
    and b: "list_all isWhiteSpace b"
    using trim_decomp by blast
  have "tok = a @ w @ ''x'' @ h @ b"
    using tok unfolding t by simp
  then have "parse_size tok = (number_value False (decimal w), number_value False (decimal h))"
    using parse_size_padded [OF a b w h] by simp
  with t w h show ?thesis by blast
qed

subsection \<open>What the validation loop accepts\<close>

lemma spec_acceptable_accepted: "spec_acceptable line \<Longrightarrow> \<not> format_incorrect line"
  by (auto simp: spec_acceptable_def format_incorrect_def toLowerCase_null isValidFormat_def
        list_all_iff list_ex_iff)

lemma accepted_iff:
  "\<not> format_incorrect line \<longleftrightarrow>
     line = '''' \<or> null_ci line \<or>
     list_all (\<lambda>tok. trim tok = '''' \<or> trim tok = ''null'' \<or> regex_test (trim tok))
       (str_split CHR '','' line)"
  by (auto simp: format_incorrect_def toLowerCase_null isValidFormat_def list_all_iff list_ex_iff)

lemma matching_tokens_no_NaN:
  assumes "line \<noteq> ''''" "\<not> null_ci line"
    and "list_all (\<lambda>tok. regex_test (trim tok)) (str_split CHR '','' line)"
  shows "\<exists>ps. parseSizes line = Some ps \<and> length ps = length (str_split CHR '','' line) \<and>
           list_all (\<lambda>(w, h). w \<noteq> NaN \<and> h \<noteq> NaN) ps"
proof -
  have "parseSizes line = Some (map parse_size (str_split CHR '','' line))"
    using assms(1,2) by (simp add: parseSizes_def toLowerCase_null)
  moreover have "list_all (\<lambda>(w, h). w \<noteq> NaN \<and> h \<noteq> NaN) (map parse_size (str_split CHR '','' line))"
    using assms(3) parse_size_trimmed number_value_not_NaN by (fastforce simp: list_all_iff)
  ultimately show ?thesis by simp
qed

subsection \<open>The prompt loop and the runs\<close>

lemma getValidInput_loop_closed:
  "getValidInput_loop msg p lines =
     (case dropWhile format_incorrect lines of
        [] \<Rightarrow> None
      | r # rest \<Rightarrow>
          Some (r, rest, reprompts msg p (length (takeWhile format_incorrect lines)) @ [Question p]))"
proof (induction lines)
  case Nil
  show ?case by simp
next
  case (Cons a lines)
  show ?case
  proof (cases "format_incorrect a")
    case False
    then show ?thesis by (simp add: reprompts_def)
  next
    case True
    show ?thesis
    proof (cases "dropWhile format_incorrect lines")
      case Nil
      show ?thesis by (simp add: True Cons.IH Nil)
    next
      case dw: (Cons r rest)
      show ?thesis by (simp add: True Cons.IH dw reprompts_def)
    qed
  qed
qed

lemma json_output_append: "json_output (xs @ ys) = json_output xs @ json_output ys"
  by (induction xs rule: json_output.induct) simp_all

lemma json_output_reprompts: "json_output (reprompts msg p n) = []"
  by (induction n) (simp_all add: reprompts_def)

lemma getValidInput_loop_Some:
  assumes "getValidInput_loop msg p lines = Some (r, rest, evs)"
  shows "json_output evs = []" and "accepted lines = r # accepted rest" and "\<not> format_incorrect r"
proof -
  from assms obtain dw: "dropWhile format_incorrect lines = r # rest"
    and evs: "evs = reprompts msg p (length (takeWhile format_incorrect lines)) @ [Question p]"
    by (auto simp: getValidInput_loop_closed split: list.splits)
  show "json_output evs = []"
    by (simp add: evs json_output_append json_output_reprompts)
  from dw show nr: "\<not> format_incorrect r"
    by (metis hd_dropWhile list.distinct(1) list.sel(1))
  have "accepted lines = accepted (takeWhile format_incorrect lines @ dropWhile format_incorrect lines)"
    by simp
  also have "\<dots> = accepted (takeWhile format_incorrect lines) @ accepted (r # rest)"
    unfolding dw by (simp add: accepted_def)
  also have "accepted (takeWhile format_incorrect lines) = []"
    by (auto simp: accepted_def filter_empty_conv dest: set_takeWhileD)
  finally show "accepted lines = r # accepted rest" using nr by (simp add: accepted_def)
qed

lemma getValidInput_None_iff: "getValidInput_loop msg p lines = None \<longleftrightarrow> accepted lines = []"
  by (induction lines) (auto simp: accepted_def split: option.splits)

lemma notAutoInsert_main_output:
  assumes "notAutoInsert_main lines = Some evs"
  shows "\<exists>d t m. take 3 (accepted lines) = [d, t, m] \<and>
           json_output evs =
             (if null_or_empty (parseSizes d) \<and> null_or_empty (parseSizes t) \<and> null_or_empty (parseSizes m)
              then [] else [createSizeMap (parseSizes d) (parseSizes t) (parseSizes m)])"
proof -
  from assms obtain d l1 and e1 :: "size_map event list"
    where g1: "getValidInput ''Enter Desktop sizes: '' lines = Some (d, l1, e1)"
    by (auto simp: notAutoInsert_main_def split: option.splits)
  from assms g1 obtain t l2 and e2 :: "size_map event list"
    where g2: "getValidInput ''Enter Tablet sizes: '' l1 = Some (t, l2, e2)"
    by (auto simp: notAutoInsert_main_def split: option.splits)
  from assms g1 g2 obtain m l3 and e3 :: "size_map event list"
    where g3: "getValidInput ''Enter Mobile sizes: '' l2 = Some (m, l3, e3)"
    by (auto simp: notAutoInsert_main_def split: option.splits)
  note s1 = getValidInput_loop_Some [OF g1 [unfolded getValidInput_def]]
  note s2 = getValidInput_loop_Some [OF g2 [unfolded getValidInput_def]]
  note s3 = getValidInput_loop_Some [OF g3 [unfolded getValidInput_def]]
  have acc: "take 3 (accepted lines) = [d, t, m]"
    by (simp add: s1(2) s2(2) s3(2) numeral_3_eq_3)
  have evs: "evs = Log instruction # e1 @ e2 @ e3 @ [RlClose] @
                (if null_or_empty (parseSizes d) \<and> null_or_empty (parseSizes t) \<and>
                    null_or_empty (parseSizes m)
                 then [Log ''No size config needed'']
                 else [LogJson (createSizeMap (parseSizes d) (parseSizes t) (parseSizes m))])"
    using assms by (simp add: notAutoInsert_main_def g1 g2 g3 Let_def)
  have "json_output evs =
             (if null_or_empty (parseSizes d) \<and> null_or_empty (parseSizes t) \<and> null_or_empty (parseSizes m)
              then [] else [createSizeMap (parseSizes d) (parseSizes t) (parseSizes m)])"
    unfolding evs
    by (simp add: json_output_append s1(1) s2(1) s3(1))
  with acc show ?thesis by blast
qed

lemma processInputs_output:
  assumes "processInputs lines = Some evs"
  shows "\<exists>d t m. take 3 (accepted lines) = [d, t, m] \<and>
           json_output evs = [generateSizeMap [parseSizes d, parseSizes t, parseSizes m] [''d'', ''t'', ''m'']]"
proof -
  from assms obtain d l1 and e1 :: "result event list"
    where g1: "getValidInput_loop invalid_message ''Enter Desktop sizes: '' lines = Some (d, l1, e1)"
    by (auto simp: processInputs_def split: option.splits)
  from assms g1 obtain t l2 and e2 :: "result event list"
    where g2: "getValidInput_loop invalid_message ''Enter Tablet sizes: '' l1 = Some (t, l2, e2)"
    by (auto simp: processInputs_def split: option.splits)
  from assms g1 g2 obtain m l3 and e3 :: "result event list"
    where g3: "getValidInput_loop invalid_message ''Enter Mobile sizes: '' l2 = Some (m, l3, e3)"
    by (auto simp: processInputs_def split: option.splits)
  note s1 = getValidInput_loop_Some [OF g1]
  note s2 = getValidInput_loop_Some [OF g2]
  note s3 = getValidInput_loop_Some [OF g3]
  have acc: "take 3 (accepted lines) = [d, t, m]"
    by (simp add: s1(2) s2(2) s3(2) numeral_3_eq_3)
  have evs: "evs = Log instruction_labels # e1 @ e2 @ e3 @
       [RlClose, LogJson (generateSizeMap [parseSizes d, parseSizes t, parseSizes m] [''d'', ''t'', ''m''])]"
    using assms by (simp add: processInputs_def g1 g2 g3 Let_def)
  have "json_output evs = [generateSizeMap [parseSizes d, parseSizes t, parseSizes m] [''d'', ''t'', ''m'']]"
    unfolding evs
    by (simp add: json_output_append s1(1) s2(1) s3(1))
  with acc show ?thesis by blast
qed

lemma notAutoInsert_main_completes:
  "notAutoInsert_main lines \<noteq> None \<longleftrightarrow> 3 \<le> length (accepted lines)"
proof
  assume "notAutoInsert_main lines \<noteq> None"
  then obtain evs where "notAutoInsert_main lines = Some evs" by blast
  from notAutoInsert_main_output [OF this] obtain d t m where "take 3 (accepted lines) = [d, t, m]"
    by blast
  then have "length (take 3 (accepted lines)) = 3" by simp
  then show "3 \<le> length (accepted lines)" by simp
next
  assume len: "3 \<le> length (accepted lines)"
  then have "accepted lines \<noteq> []" by auto
  then obtain d l1 and e1 :: "size_map event list"
    where g1: "getValidInput ''Enter Desktop sizes: '' lines = Some (d, l1, e1)"
    unfolding getValidInput_def
    by (metis getValidInput_None_iff not_Some_eq prod_cases3)
  note s1 = getValidInput_loop_Some [OF g1 [unfolded getValidInput_def]]
  from len s1(2) have "accepted l1 \<noteq> []" by auto
  then obtain t l2 and e2 :: "size_map event list"
    where g2: "getValidInput ''Enter Tablet sizes: '' l1 = Some (t, l2, e2)"
    unfolding getValidInput_def
    by (metis getValidInput_None_iff not_Some_eq prod_cases3)
  note s2 = getValidInput_loop_Some [OF g2 [unfolded getValidInput_def]]
  from len s1(2) s2(2) have "accepted l2 \<noteq> []" by auto
  then obtain m l3 and e3 :: "size_map event list"
    where g3: "getValidInput ''Enter Mobile sizes: '' l2 = Some (m, l3, e3)"
    unfolding getValidInput_def
    by (metis getValidInput_None_iff not_Some_eq prod_cases3)
  show "notAutoInsert_main lines \<noteq> None"
    by (simp add: notAutoInsert_main_def g1 g2 g3 Let_def)
qed

lemma processInputs_completes:
  "processInputs lines \<noteq> None \<longleftrightarrow> 3 \<le> length (accepted lines)"
proof
  assume "processInputs lines \<noteq> None"
  then obtain evs where "processInputs lines = Some evs" by blast
  from processInputs_output [OF this] obtain d t m where "take 3 (accepted lines) = [d, t, m]"
    by blast
  then have "length (take 3 (accepted lines)) = 3" by simp
  then show "3 \<le> length (accepted lines)" by simp
next
  assume len: "3 \<le> length (accepted lines)"
  then have "accepted lines \<noteq> []" by auto
  then obtain d l1 and e1 :: "result event list"
    where g1: "getValidInput_loop invalid_message ''Enter Desktop sizes: '' lines = Some (d, l1, e1)"
    by (metis getValidInput_None_iff not_Some_eq prod_cases3)
  note s1 = getValidInput_loop_Some [OF g1]
  from len s1(2) have "accepted l1 \<noteq> []" by auto
  then obtain t l2 and e2 :: "result event list"
    where g2: "getValidInput_loop invalid_message ''Enter Tablet sizes: '' l1 = Some (t, l2, e2)"
    by (metis getValidInput_None_iff not_Some_eq prod_cases3)
  note s2 = getValidInput_loop_Some [OF g2]
  from len s1(2) s2(2) have "accepted l2 \<noteq> []" by auto
  then obtain m l3 and e3 :: "result event list"
    where g3: "getValidInput_loop invalid_message ''Enter Mobile sizes: '' l2 = Some (m, l3, e3)"
    by (metis getValidInput_None_iff not_Some_eq prod_cases3)
  show "processInputs lines \<noteq> None"
    by (simp add: processInputs_def g1 g2 g3 Let_def)
qed

subsection \<open>The assemblers\<close>

lemma createSizeMap_ref_not_omitting:
  "createSizeMap d t m = createSizeMap_ref d t m \<Longrightarrow> d \<noteq> Some [] \<and> t \<noteq> Some [] \<and> m \<noteq> Some []"
  by (cases d; cases t; cases m)
     (simp_all add: createSizeMap_ref_def createSizeMap_def Let_def split: if_splits)

lemma foldl_visit_primary:
  "primary res \<noteq> None \<Longrightarrow>
   foldl (visit devices) (res, ext) items = (res, ext @ visit_items devices items)"
  by (induction items arbitrary: ext) (auto simp: visit_def visit_items_def Let_def split: option.splits)

lemma foldl_visit_empty:
  "primary res = None \<Longrightarrow>
   foldl (visit devices) (res, ext) items =
     (case visit_items devices items of
        [] \<Rightarrow> (res, ext)
      | p # others \<Rightarrow> (res\<lparr>primary := Some p\<rparr>, ext @ others))"
proof (induction items)
  case Nil
  then show ?case by (simp add: visit_items_def)
next
  case (Cons it items)
  obtain sz index where it: "it = (sz, index)" by (cases it)
  show ?case
  proof (cases "sz = None \<or> sz = Some []")
    case True
    then have "visit devices (res, ext) it = (res, ext)"
      by (auto simp: it visit_def)
    moreover from True have "visit_items devices (it # items) = visit_items devices items"
      by (auto simp: it visit_items_def)
    ultimately show ?thesis using Cons by simp
  next
    case False
    then obtain xs where xs: "sz = Some xs" "xs \<noteq> []" by auto
    let ?p = "\<lparr>sizes = xs, envs = nth_opt devices index\<rparr>"
    have v: "visit devices (res, ext) it = (res\<lparr>primary := Some ?p\<rparr>, ext)"
      using Cons.prems by (simp add: it xs visit_def)
    have i: "visit_items devices (it # items) = ?p # visit_items devices items"
      by (simp add: it xs visit_items_def)
    show ?thesis
      by (simp add: v i foldl_visit_primary)
  qed
qed

lemma generateSizeMap_non_skipped:
  "generateSizeMap inputs devices =
     (case non_skipped inputs devices of
        [] \<Rightarrow> \<lparr>primary = None, envExt = None\<rparr>
      | p # others \<Rightarrow> \<lparr>primary = Some p, envExt = (if others = [] then None else Some others)\<rparr>)"
proof -
  have ns: "non_skipped inputs devices = visit_items devices (zip inputs [0 ..< length inputs])"
    by (simp add: non_skipped_def visit_items_def)
  show ?thesis
    unfolding generateSizeMap_def ns
    by (simp add: foldl_visit_empty split: list.splits)
qed

subsection \<open>The launcher\<close>

lemma startScript_unrecognized:
  "script_of input = None \<Longrightarrow>
   startScript os (input # rest) =
     (case startScript os rest of None \<Rightarrow> None
      | Some (evs, code) \<Rightarrow> Some (invalid_choice @ evs, code))"
  by (simp add: script_of_def toUpperCase_A toUpperCase_E invalid_choice_def
        split: if_splits option.splits)

lemma startScript_recognized:
  "script_of input = Some script \<Longrightarrow>
   startScript os (input # rest) =
     Some ([Log menu, Question ''> '', Log (''Starting '' @ script @ ''...'')] @
           fst (executeScript os script), snd (executeScript os script))"
  by (auto simp: script_of_def toUpperCase_A toUpperCase_E split: if_splits prod.splits)

section \<open>Evaluation on concrete inputs\<close>

lemmas char_eval = isWhiteSpace_def isDigit_def toLowerCase_null null_ci_def same_letter_def
  trim_def Let_def

lemmas validator_eval = format_incorrect_def isValidFormat_def regex_test_def

lemmas parser_eval = parseSizes_def parse_size_def parseInt_def parseInt_str_def
  digits_value_def digit_val_def number_value_tie_to_even number_value_exact

section \<open>The claims\<close>

text \<open>
  Claim C1. The validation loop accepts a line exactly when it is empty, is null in any
  case, or is a list of tokens between commas that each match the pattern
  \<open>^\d+x\d+$\<close> once trimmed; every other line is rejected and asked again.

  The loop tests each trimmed token with isValidFormat, which also holds for the empty
  token and for the token null. The line \<open>150x50,\<close> has an empty second token: it is not
  acceptable in the sense of the claim, and the loop returns it at once, with no message.
\<close>

theorem getValidInput_empty_token:
  "\<not> spec_acceptable ''150x50,''
   \<and> \<not> format_incorrect ''150x50,''
   \<and> (getValidInput ''Enter Desktop sizes: '' [''150x50,'']
        :: (string \<times> string list \<times> size_map event list) option) =
       Some (''150x50,'', [], [Question ''Enter Desktop sizes: ''])"
  by (simp add: spec_acceptable_def getValidInput_def char_eval validator_eval)

text \<open>
  Claim C2. parseSizes returns null for every spelling of null in any case, the empty
  sequence for the empty string, and otherwise splits the string at the commas and each
  token at the letter x into a pair (width, height) of base-10 integers, in the order of
  the tokens; in particular \<open>150x50,300x100\<close> gives \<open>[[150,50],[300,100]]\<close>.

  As it is stated the claim fails: parseSizes does not check its tokens and its numbers are
  doubles. The token null of the line \<open>150x50,null\<close>, a line that the validation loop
  accepts, gives the pair (NaN, NaN); and the width 9007199254740993, which is
  \<open>2 ^ 53 + 1\<close>, becomes 9007199254740992.
\<close>

theorem parseSizes_pairs_counterexample:
  "\<not> format_incorrect ''150x50,null''
   \<and> ''150x50,null'' \<noteq> '''' \<and> \<not> null_ci ''150x50,null''
   \<and> parseSizes ''150x50,null'' = Some [(Num 150, Num 50), (NaN, NaN)]
   \<and> parseSizes ''9007199254740993x1'' = Some [(Num 9007199254740992, Num 1)]"
  by (simp add: char_eval validator_eval parser_eval)

text \<open>
  Claim C2, as amended. parseSizes returns null exactly for the spellings of null in any
  case and the empty sequence for the empty string. For any other string it returns one
  pair for each token between commas, in the order of the tokens. For each token that, once
  trimmed, is a width of digits, the letter x and a height of digits, the pair holds the
  Number values of the width and of the height: the integers themselves below \<open>2 ^ 53\<close>,
  the nearest double beyond. In particular \<open>150x50,300x100\<close> gives
  \<open>[[150,50],[300,100]]\<close>. Nothing is said of a token of another form.
\<close>

theorem parseSizes_matching_tokens:
  "(parseSizes s = None \<longleftrightarrow> null_ci s)
   \<and> parseSizes '''' = Some []
   \<and> (s \<noteq> '''' \<and> \<not> null_ci s \<longrightarrow>
        map_option length (parseSizes s) = Some (length (str_split CHR '','' s)))
   \<and> (s \<noteq> '''' \<and> \<not> null_ci s \<and> i < length (str_split CHR '','' s) \<and>
        trim (str_split CHR '','' s ! i) = w @ ''x'' @ h \<and> digit_string w \<and> digit_string h \<longrightarrow>
        map_option (\<lambda>ps. ps ! i) (parseSizes s) =
          Some (number_value False (decimal w), number_value False (decimal h)))
   \<and> (n < 2 ^ 53 \<longrightarrow> number_value False n = Num (int n))
   \<and> parseSizes ''150x50,300x100'' = Some [(Num 150, Num 50), (Num 300, Num 100)]"
proof (intro conjI impI)
  show "parseSizes s = None \<longleftrightarrow> null_ci s"
    by (simp add: parseSizes_def toLowerCase_null)
  show "parseSizes '''' = Some []"
    by (simp add: parseSizes_def toLowerCase_def)
  show "map_option length (parseSizes s) = Some (length (str_split CHR '','' s))"
    if "s \<noteq> '''' \<and> \<not> null_ci s"
    using that by (simp add: parseSizes_def toLowerCase_null)
  show "map_option (\<lambda>ps. ps ! i) (parseSizes s) =
          Some (number_value False (decimal w), number_value False (decimal h))"
    if hyp: "s \<noteq> '''' \<and> \<not> null_ci s \<and> i < length (str_split CHR '','' s) \<and>
        trim (str_split CHR '','' s ! i) = w @ ''x'' @ h \<and> digit_string w \<and> digit_string h"
  proof -
    let ?tok = "str_split CHR '','' s ! i"
    obtain a b where tok: "?tok = a @ trim ?tok @ b" and a: "list_all isWhiteSpace a"
      and b: "list_all isWhiteSpace b"
      using trim_decomp by blast
    from hyp have w: "w \<noteq> []" "list_all isDigit w" and h: "h \<noteq> []" "list_all isDigit h"
      by (simp_all add: digit_string_def)
    from hyp tok have "?tok = a @ w @ ''x'' @ h @ b" by simp
    then have "parse_size ?tok = (number_value False (decimal w), number_value False (decimal h))"
      using parse_size_padded [OF a b w h] by simp
    moreover from hyp have "map_option (\<lambda>ps. ps ! i) (parseSizes s) = Some (parse_size ?tok)"
      by (simp add: parseSizes_def toLowerCase_null)
    ultimately show ?thesis by simp
  qed
  show "number_value False n = Num (int n)" if "n < 2 ^ 53"
    using that by (simp add: number_value_def)
  show "parseSizes ''150x50,300x100'' = Some [(Num 150, Num 50), (Num 300, Num 100)]"
    by (simp add: char_eval parser_eval)
qed

theorem parseSizes_matching_tokens_witness:
  "parseSizes ''NuLL'' = None
   \<and> map_option length (parseSizes ''7x9 , 10x2 '') = Some 2
   \<and> map_option (\<lambda>ps. ps ! 1) (parseSizes ''7x9 , 10x2 '') = Some (Num 10, Num 2)"
proof -
  have n: "null_ci ''NuLL''"
    by (simp add: null_ci_def same_letter_def)
  have o: "''7x9 , 10x2 '' \<noteq> '''' \<and> \<not> null_ci ''7x9 , 10x2 ''"
    by (simp add: null_ci_def)
  have t: "str_split CHR '','' ''7x9 , 10x2 '' = [''7x9 '', '' 10x2 '']"
    by (simp add: Let_def)
  have r: "trim '' 10x2 '' = ''10'' @ ''x'' @ ''2''"
    by (simp add: trim_def isWhiteSpace_def)
  have d: "digit_string ''10'' \<and> digit_string ''2''"
    by (simp add: digit_string_def isDigit_def)
  have v: "decimal ''10'' = 10" "decimal ''2'' = 2"
    by (simp_all add: digits_value_decimal [symmetric] digits_value_def digit_val_def)
  have hyp: "''7x9 , 10x2 '' \<noteq> '''' \<and> \<not> null_ci ''7x9 , 10x2 '' \<and>
      1 < length (str_split CHR '','' ''7x9 , 10x2 '') \<and>
      trim (str_split CHR '','' ''7x9 , 10x2 '' ! 1) = ''10'' @ ''x'' @ ''2'' \<and>
      digit_string ''10'' \<and> digit_string ''2''"
    using o r d by (simp only: t) simp
  note T = parseSizes_matching_tokens [of "''7x9 , 10x2 ''" 1 "''10''" "''2''" 10]
  from parseSizes_matching_tokens [of "''NuLL''" 0 "[]" "[]" 0] n
  have N: "parseSizes ''NuLL'' = None" by blast
  from T o have "map_option length (parseSizes ''7x9 , 10x2 '') =
      Some (length (str_split CHR '','' ''7x9 , 10x2 ''))" by blast
  then have L: "map_option length (parseSizes ''7x9 , 10x2 '') = Some 2"
    by (simp only: t) simp
  from T hyp have "map_option (\<lambda>ps. ps ! 1) (parseSizes ''7x9 , 10x2 '') =
      Some (number_value False (decimal ''10''), number_value False (decimal ''2''))" by blast
  moreover from T have "number_value False 10 = Num (int 10)" by simp
  moreover have "number_value False 2 = Num 2" by (simp add: number_value_exact)
  ultimately have P: "map_option (\<lambda>ps. ps ! 1) (parseSizes ''7x9 , 10x2 '') = Some (Num 10, Num 2)"
    by (simp only: v) simp
  from N L P show ?thesis by (intro conjI)
qed

text \<open>
  Claim C3. createSizeMap of notAutoInsert.js keeps the order desktop (992), tablet (768),
  mobile (0). A category has an entry exactly when its result is null or a sequence that is
  not empty, and the entry carries that result; an empty sequence has no entry. For
  desktop \<open>[[150,50]]\<close>, tablet \<open>[]\<close> and mobile \<open>null\<close> the size map is
  \<open>[[[992],[[150,50]]],[[0],null]]\<close>.
\<close>

theorem createSizeMap_entries:
  "sizeMap (createSizeMap d t m) =
     filter (\<lambda>(threshold, r). r \<noteq> Some []) [([992], d), ([768], t), ([0], m)]
   \<and> createSizeMap (Some [(Num 150, Num 50)]) (Some []) None =
       \<lparr>sizeMap = [([992], Some [(Num 150, Num 50)]), ([0], None)]\<rparr>"
  by (simp add: createSizeMap_def split: option.splits)

text \<open>
  Claim C4. generateSizeMap of the variant with labels goes through desktop, tablet and
  mobile in that order and skips a category that is null or empty. The first category left
  gives the primary sizes and its label d, t or m; the ones after it, in order, form envExt,
  a key that exists only when there is one at least; with no category left the result is
  the empty object.
\<close>

theorem generateSizeMap_first_plus_extensions:
  "generateSizeMap [d, t, m] [''d'', ''t'', ''m''] =
     (case concat (map (\<lambda>(sz, label). case sz of None \<Rightarrow> [] | Some xs \<Rightarrow>
                           if xs = [] then [] else [\<lparr>sizes = xs, envs = Some label\<rparr>])
                   [(d, ''d''), (t, ''t''), (m, ''m'')]) of
        [] \<Rightarrow> \<lparr>primary = None, envExt = None\<rparr>
      | p # others \<Rightarrow> \<lparr>primary = Some p, envExt = (if others = [] then None else Some others)\<rparr>)"
proof -
  have "[0 ..< length [d, t, m]] = [0, 1, 2]" by (simp add: upt_rec)
  then have "non_skipped [d, t, m] [''d'', ''t'', ''m''] =
     concat (map (\<lambda>(sz, label). case sz of None \<Rightarrow> [] | Some xs \<Rightarrow>
                           if xs = [] then [] else [\<lparr>sizes = xs, envs = Some label\<rparr>])
                   [(d, ''d''), (t, ''t''), (m, ''m'')])"
    by (simp add: non_skipped_def split: option.splits)
  then show ?thesis by (simp only: generateSizeMap_non_skipped)
qed

text \<open>
  Claim C5. In notAutoInsert.js, when each of the three parsed results is null or the empty
  sequence, the run writes the line \<open>No size config needed\<close> after closing the prompt,
  prints no JSON at all, and ends normally.
\<close>

theorem notAutoInsert_no_config:
  fixes e1 e2 e3 :: "size_map event list"
  assumes "getValidInput ''Enter Desktop sizes: '' lines = Some (desktopInput, l1, e1)"
    and "getValidInput ''Enter Tablet sizes: '' l1 = Some (tabletInput, l2, e2)"
    and "getValidInput ''Enter Mobile sizes: '' l2 = Some (mobileInput, l3, e3)"
    and "null_or_empty (parseSizes desktopInput)"
    and "null_or_empty (parseSizes tabletInput)"
    and "null_or_empty (parseSizes mobileInput)"
  shows "notAutoInsert_main lines =
           Some (Log instruction # e1 @ e2 @ e3 @ [RlClose, Log ''No size config needed''])
         \<and> json_output (Log instruction # e1 @ e2 @ e3 @ [RlClose, Log ''No size config needed'']) = []"
proof -
  note s1 = getValidInput_loop_Some [OF assms(1) [unfolded getValidInput_def]]
  note s2 = getValidInput_loop_Some [OF assms(2) [unfolded getValidInput_def]]
  note s3 = getValidInput_loop_Some [OF assms(3) [unfolded getValidInput_def]]
  have "json_output (Log instruction # e1 @ e2 @ e3 @ [RlClose, Log ''No size config needed'']) = []"
    by (simp add: json_output_append s1(1) s2(1) s3(1))
  then show ?thesis
    using assms by (simp add: notAutoInsert_main_def)
qed

theorem notAutoInsert_no_config_witness:
  "notAutoInsert_main ['''', ''abc'', ''NULL'', ''''] =
     Some [Log instruction, Question ''Enter Desktop sizes: '',
           Question ''Enter Tablet sizes: '', Log format_message,
           Question ''Enter Tablet sizes: '', Question ''Enter Mobile sizes: '',
           RlClose, Log ''No size config needed'']"
proof -
  have g1: "getValidInput ''Enter Desktop sizes: '' ['''', ''abc'', ''NULL'', ''''] =
      Some ('''', [''abc'', ''NULL'', ''''], [Question ''Enter Desktop sizes: ''] :: size_map event list)"
    by (simp add: getValidInput_def char_eval validator_eval)
  have g2: "getValidInput ''Enter Tablet sizes: '' [''abc'', ''NULL'', ''''] =
      Some (''NULL'', [''''], [Question ''Enter Tablet sizes: '', Log format_message,
            Question ''Enter Tablet sizes: ''] :: size_map event list)"
    by (simp add: getValidInput_def char_eval validator_eval)
  have g3: "getValidInput ''Enter Mobile sizes: '' [''''] =
      Some ('''', [], [Question ''Enter Mobile sizes: ''] :: size_map event list)"
    by (simp add: getValidInput_def char_eval validator_eval)
  have n1: "null_or_empty (parseSizes '''')"
    by (simp add: null_or_empty_def parseSizes_def char_eval)
  have n2: "null_or_empty (parseSizes ''NULL'')"
    by (simp add: null_or_empty_def parseSizes_def char_eval)
  show ?thesis
    using notAutoInsert_no_config [OF g1 g2 g3 n1 n2 n1] by simp
qed

text \<open>
  Claim C6. For every line that the validation loop accepts, other than the empty line
  and null, each pair of parseSizes holds two integers: no component is NaN.

  The loop accepts \<open>150x50,\<close>, whose second token is empty, and parseSizes gives
  the pair (NaN, NaN) for that token.
\<close>

theorem parseSizes_NaN_after_validation:
  "\<not> format_incorrect ''150x50,''
   \<and> ''150x50,'' \<noteq> '''' \<and> toLowerCase ''150x50,'' \<noteq> ''null''
   \<and> parseSizes ''150x50,'' = Some [(Num 150, Num 50), (NaN, NaN)]"
  by (simp add: char_eval validator_eval parser_eval)

text \<open>
  Claim C7. The launcher takes A or E, in either case and once trimmed, and asks again
  after any other line, as often as needed. On A or E it closes its readline interface,
  starts the chosen script with node on inherited standard streams, and exits with the
  exit code of the child when the child ends, or with 1 when the child could not be
  started. Here \<open>bad\<close> are lines that select nothing and \<open>good\<close> is the first line that
  selects a script.
\<close>

theorem launcher_runs_choice:
  assumes "\<forall>l \<in> set bad. script_of l = None" and "script_of good = Some script"
  shows "startScript os bad = None
    \<and> startScript os (bad @ good # rest) =
        Some (concat (replicate (length bad) invalid_choice) @
              [Log menu, Question ''> '', Log (''Starting '' @ script @ ''...''),
               RlClose, Spawn ''node'' [script] [''inherit'', ''inherit'', ''inherit''],
               (case os script of
                  Closed code \<Rightarrow> Log (''Script '' @ script @ '' exited with code '' @ show_code code)
                | StartFailed message \<Rightarrow> LogError (''Failed to start script: '' @ message))],
              (case os script of Closed None \<Rightarrow> 0 | Closed (Some c) \<Rightarrow> c | StartFailed message \<Rightarrow> 1))
    \<and> (toUpperCase (trim good) = ''A'' \<and> script = ''autoInsert.js''
       \<or> toUpperCase (trim good) = ''E'' \<and> script = ''notAutoInsert.js'')"
proof (intro conjI)
  from assms(1) show "startScript os bad = None"
    by (induction bad) (simp_all add: startScript_unrecognized del: startScript.simps(2))
  have ex: "executeScript os script =
      ([RlClose, Spawn ''node'' [script] [''inherit'', ''inherit'', ''inherit''],
               (case os script of
                  Closed code \<Rightarrow> Log (''Script '' @ script @ '' exited with code '' @ show_code code)
                | StartFailed message \<Rightarrow> LogError (''Failed to start script: '' @ message))],
              (case os script of Closed None \<Rightarrow> 0 | Closed (Some c) \<Rightarrow> c | StartFailed message \<Rightarrow> 1))"
    by (simp add: executeScript_def split: spawn_result.splits option.splits)
  from assms(1) show "startScript os (bad @ good # rest) =
        Some (concat (replicate (length bad) invalid_choice) @
              [Log menu, Question ''> '', Log (''Starting '' @ script @ ''...''),
               RlClose, Spawn ''node'' [script] [''inherit'', ''inherit'', ''inherit''],
               (case os script of
                  Closed code \<Rightarrow> Log (''Script '' @ script @ '' exited with code '' @ show_code code)
                | StartFailed message \<Rightarrow> LogError (''Failed to start script: '' @ message))],
              (case os script of Closed None \<Rightarrow> 0 | Closed (Some c) \<Rightarrow> c | StartFailed message \<Rightarrow> 1))"
  proof (induction bad)
    case Nil
    show ?case
      by (simp only: append_Nil startScript_recognized [OF assms(2)] ex) simp
  next
    case (Cons b bad)
    then show ?case
      by (simp add: startScript_unrecognized del: startScript.simps)
  qed
  from assms(2) show "toUpperCase (trim good) = ''A'' \<and> script = ''autoInsert.js''
       \<or> toUpperCase (trim good) = ''E'' \<and> script = ''notAutoInsert.js''"
    by (auto simp: script_of_def toUpperCase_A toUpperCase_E split: if_splits)
qed

theorem launcher_runs_choice_witness:
  "startScript (\<lambda>s. Closed (Some 3)) [''x'', '' e '', ''150x50''] =
     Some (invalid_choice @
           [Log menu, Question ''> '', Log ''Starting notAutoInsert.js...'', RlClose,
            Spawn ''node'' [''notAutoInsert.js''] [''inherit'', ''inherit'', ''inherit''],
            Log ''Script notAutoInsert.js exited with code 3''], 3)
   \<and> startScript (\<lambda>s. StartFailed ''spawn node ENOENT'') [''x'', '' e '', ''150x50''] =
     Some (invalid_choice @
           [Log menu, Question ''> '', Log ''Starting notAutoInsert.js...'', RlClose,
            Spawn ''node'' [''notAutoInsert.js''] [''inherit'', ''inherit'', ''inherit''],
            LogError ''Failed to start script: spawn node ENOENT''], 1)"
proof -
  have bad: "\<forall>l \<in> set [''x'']. script_of l = None"
    by (simp add: script_of_def trim_def isWhiteSpace_def)
  have good: "script_of '' e '' = Some ''notAutoInsert.js''"
    by (simp add: script_of_def trim_def isWhiteSpace_def)
  have sc: "show_code (Some 3) = ''3''"
    by code_simp
  show ?thesis
    using launcher_runs_choice [OF bad good, of "\<lambda>s. Closed (Some 3)" "[''150x50'']"]
      launcher_runs_choice [OF bad good, of "\<lambda>s. StartFailed ''spawn node ENOENT''" "[''150x50'']"]
    by (simp add: sc)
qed

text \<open>
  Claim C9. createSizeMap of sizeMapRef.js returns three entries for every input, with the
  thresholds 992, 768 and 0 in that order; an empty sequence is kept as the value of its
  entry.
\<close>

theorem createSizeMap_ref_three_entries:
  "sizeMap (createSizeMap_ref d t m) = [([992], d), ([768], t), ([0], m)]
   \<and> length (sizeMap (createSizeMap_ref d t m)) = 3
   \<and> map fst (sizeMap (createSizeMap_ref d t m)) = [[992], [768], [0]]
   \<and> sizeMap (createSizeMap_ref (Some []) t m) = [([992], Some []), ([768], t), ([0], m)]"
  by (simp add: createSizeMap_ref_def)

text \<open>
  Claim C10. When each of the three results is null or a sequence that is not empty, the
  two functions createSizeMap (notAutoInsert.js and sizeMapRef.js) return the same object.
\<close>

theorem createSizeMap_agree:
  "d \<noteq> Some [] \<Longrightarrow> t \<noteq> Some [] \<Longrightarrow> m \<noteq> Some [] \<Longrightarrow>
   createSizeMap d t m = createSizeMap_ref d t m"
  by (cases d; cases t; cases m)
     (simp_all add: createSizeMap_ref_def createSizeMap_def Let_def)

theorem createSizeMap_agree_witness:
  "Some [(Num 150, Num 50)] \<noteq> Some [] \<and> (None :: size_pair list option) \<noteq> Some []
   \<and> createSizeMap (Some [(Num 150, Num 50)]) None None =
       createSizeMap_ref (Some [(Num 150, Num 50)]) None None
   \<and> sizeMap (createSizeMap_ref (Some [(Num 150, Num 50)]) None None) =
       [([992], Some [(Num 150, Num 50)]), ([768], None), ([0], None)]"
  using createSizeMap_agree [of "Some [(Num 150, Num 50)]" None None]
  by (simp add: createSizeMap_ref_def)

end
